theory Spec2Isabelle
  imports Main
begin

section \<open>Exceptions\<close>

text \<open>
  The exception classes that \<^verbatim>\<open>sosia/utils/queries.py\<close> raises or names in
  an \<^verbatim>\<open>except\<close> clause, and the \<open>OperationalError\<close> of \<^verbatim>\<open>sqlite3\<close>. An
  instance of a subclass is modelled by the listed class that catches it;
  \<open>OtherError\<close> stands for every class that no handler of the module names.
\<close>

datatype exc =
    KeyError
  | UnicodeDecodeError
  | ValueError
  | TypeError
  | Scopus400Error
  | ScopusQueryError
  | Scopus500Error
  | Scopus404Error
  | OperationalError
  | Exception string
  | OtherError string

section \<open>Strings\<close>

text \<open>\<^verbatim>\<open>sep.join(xs)\<close>.\<close>

fun join :: "string \<Rightarrow> string list \<Rightarrow> string" where
  "join sep [] = []"
| "join sep [x] = x"
| "join sep (x # y # xs) = x @ sep @ join sep (y # xs)"

text \<open>\<^verbatim>\<open>s.startswith(p)\<close> and \<^verbatim>\<open>p in s\<close> on strings.\<close>

fun startswith :: "string \<Rightarrow> string \<Rightarrow> bool" where
  "startswith s [] = True"
| "startswith [] (p # ps) = False"
| "startswith (c # cs) (p # ps) = (c = p \<and> startswith cs ps)"

fun contains :: "string \<Rightarrow> string \<Rightarrow> bool" where
  "contains p [] = (p = [])"
| "contains p (c # cs) = (startswith (c # cs) p \<or> contains p cs)"

text \<open>\<^verbatim>\<open>str(n)\<close> of an integer: its decimal digits, with a minus sign when negative.\<close>

definition digit_char :: "nat \<Rightarrow> char" where
  "digit_char d = ''0123456789'' ! d"

function str_nat :: "nat \<Rightarrow> string" where
  "str_nat n = (if n < 10 then [digit_char n] else str_nat (n div 10) @ [digit_char (n mod 10)])"
  by pat_completeness auto
termination
  by (relation "measure id") auto

declare str_nat.simps [simp del]

definition str_int :: "int \<Rightarrow> string" where
  "str_int n = (if n < 0 then CHR ''-'' # str_nat (nat (- n)) else str_nat (nat n))"

text \<open>
  \<^verbatim>\<open>int(s)\<close> on a text, base ten. A character is a code point below 256. The
  white space that \<^verbatim>\<open>int\<close> skips at both ends is tab, line feed, vertical tab,
  form feed, carriage return and space, and beyond ASCII the next-line character
  (0x85) and the no-break space (0xA0); the separators 0x1C to 0x1F are not skipped.
  One sign is allowed, and the digits may be grouped by single underscores.
  \<open>int_parses s\<close> holds when \<^verbatim>\<open>int(s)\<close> returns; otherwise it raises ValueError.
\<close>

definition isdigit :: "char \<Rightarrow> bool" where
  "isdigit c = (c \<in> set ''0123456789'')"

definition isspace :: "char \<Rightarrow> bool" where
  "isspace c = (c \<in> set [CHR '' '', CHR 0x09, CHR 0x0A, CHR 0x0B, CHR 0x0C, CHR 0x0D,
                            CHR 0x85, CHR 0xA0])"

definition strip :: "string \<Rightarrow> string" where
  "strip s = rev (dropWhile isspace (rev (dropWhile isspace s)))"

fun digit_groups :: "string \<Rightarrow> bool" where
  "digit_groups [] = False"
| "digit_groups [c] = isdigit c"
| "digit_groups (c # d # cs) =
     (isdigit c \<and> (if d = CHR ''_'' then digit_groups cs else digit_groups (d # cs)))"

definition int_parses :: "string \<Rightarrow> bool" where
  "int_parses s =
     (case strip s of
        [] \<Rightarrow> False
      | c # cs \<Rightarrow> if c = CHR ''+'' \<or> c = CHR ''-'' then digit_groups cs
                  else digit_groups (c # cs))"

section \<open>string.Template\<close>

text \<open>
  \<^verbatim>\<open>Template(t).substitute(fill=v)\<close> with the default delimiter. The template is
  scanned from the left. \<^verbatim>\<open>$$\<close> gives one dollar sign; \<^verbatim>\<open>$name\<close> and
  \<^verbatim>\<open>${name}\<close> give the value of \<open>name\<close>, and raise KeyError for every name other
  than \<open>fill\<close>, the only one supplied; any other dollar sign raises ValueError. The first
  failure from the left is the one raised. Identifiers are ASCII.
\<close>

definition idstart :: "char \<Rightarrow> bool" where
  "idstart c = (c \<in> set ''_abcdefghijklmnopqrstuvwxyzABCDEFGHIJKLMNOPQRSTUVWXYZ'')"

definition idchar :: "char \<Rightarrow> bool" where
  "idchar c = (idstart c \<or> isdigit c)"

definition then_text :: "string \<Rightarrow> exc + string \<Rightarrow> exc + string" where
  "then_text s r = (case r of Inl e \<Rightarrow> Inl e | Inr t \<Rightarrow> Inr (s @ t))"

function substitute :: "string \<Rightarrow> string \<Rightarrow> exc + string" where
  "substitute [] fill = Inr []"
| "substitute (c # cs) fill =
     (if c \<noteq> CHR ''$'' then then_text [c] (substitute cs fill)
      else case cs of
        [] \<Rightarrow> Inl ValueError
      | d # ds \<Rightarrow>
          if d = CHR ''$'' then then_text ''$'' (substitute ds fill)
          else if d = CHR ''{'' then
            (let name = takeWhile idchar ds; rest = dropWhile idchar ds in
             if name \<noteq> [] \<and> idstart (hd name) \<and> rest \<noteq> [] \<and> hd rest = CHR ''}'' then
               (if name = ''fill'' then then_text fill (substitute (tl rest) fill)
                else Inl KeyError)
             else Inl ValueError)
          else if idstart d then
            (let name = takeWhile idchar cs; rest = dropWhile idchar cs in
             if name = ''fill'' then then_text fill (substitute rest fill)
             else Inl KeyError)
          else Inl ValueError)"
  by pat_completeness auto
termination
proof (relation "measure (\<lambda>(t, fill). length t)")
  show "wf (measure (\<lambda>(t, fill). length t))" by simp
next
  fix c :: char and cs fill :: string
  assume "c \<noteq> CHR ''$''"
  then show "((cs, fill), (c # cs, fill)) \<in> measure (\<lambda>(t, fill). length t)" by simp
next
  fix c d :: char and cs ds fill :: string
  assume "cs = d # ds"
  then show "((ds, fill), (c # cs, fill)) \<in> measure (\<lambda>(t, fill). length t)" by simp
next
  fix c d :: char and cs ds fill name rest :: string
  assume "cs = d # ds" and "rest = dropWhile idchar ds"
  moreover have "length (tl (dropWhile idchar ds)) \<le> length ds"
    using length_dropWhile_le [of idchar ds] by simp
  ultimately show "((tl rest, fill), (c # cs, fill)) \<in> measure (\<lambda>(t, fill). length t)"
    by simp
next
  fix c d :: char and cs ds fill name rest :: string
  assume "cs = d # ds" and "rest = dropWhile idchar cs"
  moreover have "length (dropWhile idchar cs) \<le> length cs"
    by (rule length_dropWhile_le)
  ultimately show "((rest, fill), (c # cs, fill)) \<in> measure (\<lambda>(t, fill). length t)"
    by simp
qed

declare substitute.simps [simp del]

lemma str_nat_small: "n < 10 \<Longrightarrow> str_nat n = [digit_char n]"
  by (simp add: str_nat.simps)

lemma str_nat_large: "10 \<le> n \<Longrightarrow> str_nat n = str_nat (n div 10) @ [digit_char (n mod 10)]"
  by (subst str_nat.simps) simp

section \<open>The search adapter: query\<close>

text \<open>
  The two searches of the scopus package are outside the repository. Each is a
  function of the query string, the refresh flag and the state \<open>'w\<close> of the remote
  service and local file cache; it returns the records found or raises, and leaves a
  new state. \<open>coverDate\<close> reads the attribute of a result; it is \<open>None\<close> when the
  attribute is Python's \<^verbatim>\<open>None\<close>, which cannot be sliced (TypeError).
\<close>

record ('r, 'w) scopus =
  AuthorSearch :: "string \<Rightarrow> bool \<Rightarrow> 'w \<Rightarrow> (exc + 'r list) \<times> 'w"
  ScopusSearch :: "string \<Rightarrow> bool \<Rightarrow> 'w \<Rightarrow> (exc + 'r list) \<times> 'w"
  coverDate :: "'r \<Rightarrow> string option"

text \<open>The loop \<^verbatim>\<open>for pub in res: int(pub.coverDate[:4])\<close>: the first exception it raises, if any.\<close>

fun verify_years :: "('r \<Rightarrow> string option) \<Rightarrow> 'r list \<Rightarrow> exc option" where
  "verify_years cd [] = None"
| "verify_years cd (pub # res) =
     (case cd pub of
        None \<Rightarrow> Some TypeError
      | Some d \<Rightarrow> if int_parses (take 4 d) then verify_years cd res else Some ValueError)"

text \<open>The body of the \<^verbatim>\<open>try\<close> block of \<^verbatim>\<open>query\<close>.\<close>

definition query_try ::
  "('r, 'w) scopus \<Rightarrow> string \<Rightarrow> string \<Rightarrow> bool \<Rightarrow> 'w \<Rightarrow> (exc + 'r list) \<times> 'w" where
  "query_try sc q_type q refresh w =
     (if q_type = ''author'' then AuthorSearch sc q refresh w
      else if q_type = ''docs'' then
        (case ScopusSearch sc q refresh w of
           (Inl e, w') \<Rightarrow> (Inl e, w')
         | (Inr res, w') \<Rightarrow>
             (case verify_years (coverDate sc) res of
                Some e \<Rightarrow> (Inl e, w')
              | None \<Rightarrow> (Inr res, w')))
      else (Inl (Exception ''Unknown value provided.''), w))"

text \<open>The classes of \<^verbatim>\<open>except (KeyError, UnicodeDecodeError, ValueError)\<close>.\<close>

definition decode_class :: "exc \<Rightarrow> bool" where
  "decode_class e = (e = KeyError \<or> e = UnicodeDecodeError \<or> e = ValueError)"

text \<open>
  \<^verbatim>\<open>query(q_type, q, refresh, first_try)\<close>. The result is the exception that leaves the
  function, or the value returned: \<open>Some res\<close> for a list, \<open>None\<close> for Python's
  \<^verbatim>\<open>None\<close>, which the function returns when it falls off its end after
  \<^verbatim>\<open>pass\<close>.
\<close>

function query ::
  "('r, 'w) scopus \<Rightarrow> string \<Rightarrow> string \<Rightarrow> bool \<Rightarrow> bool \<Rightarrow> 'w \<Rightarrow> (exc + 'r list option) \<times> 'w"
  where
  "query sc q_type q refresh first_try w =
     (case query_try sc q_type q refresh w of
        (Inr res, w') \<Rightarrow> (Inr (Some res), w')
      | (Inl e, w') \<Rightarrow>
          if decode_class e then
            (if first_try then query sc q_type q True False w' else (Inr None, w'))
          else (Inl e, w'))"
  by pat_completeness auto
termination
  by (relation "measure (\<lambda>(sc, q_type, q, refresh, first_try, w). if first_try then 1 else 0)") auto

declare query.simps [simp del]

section \<open>Templates that end in the scoping clause\<close>

lemma takeWhile_append_stop: "\<not> P y \<Longrightarrow> takeWhile P (xs @ y # ys) = takeWhile P xs"
  by (induction xs) simp_all

lemma dropWhile_append_stop: "\<not> P y \<Longrightarrow> dropWhile P (xs @ y # ys) = dropWhile P xs @ y # ys"
  by (induction xs) simp_all

lemma not_idchar_space: "\<not> idchar CHR '' ''"
  by (simp add: idchar_def idstart_def isdigit_def)

lemma then_text_assoc: "then_text a (then_text b r) = then_text (a @ b) r"
  by (cases r) (simp_all add: then_text_def)

lemma substitute_append_space:
  "substitute (t @ CHR '' '' # u) fill =
     (case substitute t fill of
        Inl e \<Rightarrow> Inl e
      | Inr s \<Rightarrow> then_text s (substitute (CHR '' '' # u) fill))"
proof (induction t fill rule: substitute.induct)
  case (1 fill)
  show ?case
    by (cases "substitute (CHR '' '' # u) fill") (simp_all add: substitute.simps(1) then_text_def)
next
  case (2 c cs fill)
  let ?sp = "CHR '' '' # u"
  show ?case
  proof (cases "c = CHR ''$''")
    case False
    with 2(1) show ?thesis
      by (simp add: substitute.simps(2) then_text_def split: sum.splits)
  next
    case dollar: True
    show ?thesis
    proof (cases cs)
      case Nil
      with dollar show ?thesis
        by (simp add: substitute.simps(2) idstart_def)
    next
      case (Cons d ds)
      consider (esc) "d = CHR ''$''" | (brace) "d \<noteq> CHR ''$''" "d = CHR ''{''"
        | (named) "d \<noteq> CHR ''$''" "d \<noteq> CHR ''{''" "idstart d"
        | (bad) "d \<noteq> CHR ''$''" "d \<noteq> CHR ''{''" "\<not> idstart d"
        by blast
      then show ?thesis
      proof cases
        case esc
        with dollar Cons 2(2) show ?thesis
          by (simp add: substitute.simps(2) then_text_def split: sum.splits)
      next
        case brace
        define name where "name = takeWhile idchar ds"
        define rest where "rest = dropWhile idchar ds"
        have tw: "takeWhile idchar (ds @ CHR '' '' # u) = name"
          by (simp add: name_def takeWhile_append_stop not_idchar_space)
        have dw: "dropWhile idchar (ds @ CHR '' '' # u) = rest @ CHR '' '' # u"
          by (simp add: rest_def dropWhile_append_stop not_idchar_space)
        let ?ok = "name \<noteq> [] \<and> idstart (hd name) \<and> rest \<noteq> [] \<and> hd rest = CHR ''}''"
        have "substitute ((c # cs) @ CHR '' '' # u) fill =
            substitute (CHR ''$'' # CHR ''{'' # (ds @ CHR '' '' # u)) fill"
          using dollar Cons brace by simp
        also have "\<dots> =
            (if name \<noteq> [] \<and> idstart (hd name) \<and> hd (rest @ CHR '' '' # u) = CHR ''}'' then
               (if name = ''fill''
                then then_text fill (substitute (tl (rest @ CHR '' '' # u)) fill)
                else Inl KeyError)
             else Inl ValueError)"
          by (subst substitute.simps(2)) (simp add: Let_def tw dw not_idchar_space)
        also have "\<dots> =
            (if ?ok then
               (if name = ''fill''
                then then_text fill (substitute (tl rest @ CHR '' '' # u) fill)
                else Inl KeyError)
             else Inl ValueError)"
          by (cases rest) simp_all
        finally have lhs: "substitute ((c # cs) @ CHR '' '' # u) fill =
            (if ?ok then
               (if name = ''fill''
                then then_text fill (substitute (tl rest @ CHR '' '' # u) fill)
                else Inl KeyError)
             else Inl ValueError)" .
        have "substitute (c # cs) fill = substitute (CHR ''$'' # CHR ''{'' # ds) fill"
          using dollar Cons brace by simp
        also have "\<dots> =
            (if ?ok then
               (if name = ''fill''
                then then_text fill (substitute (tl rest) fill)
                else Inl KeyError)
             else Inl ValueError)"
          by (subst substitute.simps(2)) (auto simp add: Let_def name_def rest_def)
        finally have rhs: "substitute (c # cs) fill =
            (if ?ok then
               (if name = ''fill''
                then then_text fill (substitute (tl rest) fill)
                else Inl KeyError)
             else Inl ValueError)" .
        show ?thesis
        proof (cases "?ok \<and> name = ''fill''")
          case True
          then have "substitute (tl rest @ CHR '' '' # u) fill =
              (case substitute (tl rest) fill of
                 Inl e \<Rightarrow> Inl e
               | Inr s \<Rightarrow> then_text s (substitute (CHR '' '' # u) fill))"
            using 2(3) [of d ds "takeWhile idchar ds" "dropWhile idchar ds"] dollar Cons brace
            by (simp add: name_def rest_def idstart_def)
          with True show ?thesis
            unfolding lhs rhs
            by (simp add: then_text_def split: sum.splits)
        next
          case False
          then show ?thesis
            unfolding lhs rhs by auto
        qed
      next
        case named
        then have idc: "idchar d"
          by (simp add: idchar_def)
        define name where "name = takeWhile idchar ds"
        define rest where "rest = dropWhile idchar ds"
        have tw: "takeWhile idchar (ds @ CHR '' '' # u) = name"
          by (simp add: name_def takeWhile_append_stop not_idchar_space)
        have dw: "dropWhile idchar (ds @ CHR '' '' # u) = rest @ CHR '' '' # u"
          by (simp add: rest_def dropWhile_append_stop not_idchar_space)
        have "substitute ((c # cs) @ CHR '' '' # u) fill =
            substitute (CHR ''$'' # d # (ds @ CHR '' '' # u)) fill"
          using dollar Cons by simp
        also have "\<dots> =
            (if d # name = ''fill''
             then then_text fill (substitute (rest @ CHR '' '' # u) fill)
             else Inl KeyError)"
          using named idc by (subst substitute.simps(2)) (simp add: Let_def tw dw)
        finally have lhs: "substitute ((c # cs) @ CHR '' '' # u) fill =
            (if d # name = ''fill''
             then then_text fill (substitute (rest @ CHR '' '' # u) fill)
             else Inl KeyError)" .
        have "substitute (c # cs) fill = substitute (CHR ''$'' # d # ds) fill"
          using dollar Cons by simp
        also have "\<dots> =
            (if d # name = ''fill''
             then then_text fill (substitute rest fill)
             else Inl KeyError)"
          using named idc
          by (subst substitute.simps(2)) (simp add: Let_def name_def rest_def)
        finally have rhs: "substitute (c # cs) fill =
            (if d # name = ''fill''
             then then_text fill (substitute rest fill)
             else Inl KeyError)" .
        show ?thesis
        proof (cases "d # name = ''fill''")
          case True
          then have "substitute (rest @ CHR '' '' # u) fill =
              (case substitute rest fill of
                 Inl e \<Rightarrow> Inl e
               | Inr s \<Rightarrow> then_text s (substitute (CHR '' '' # u) fill))"
            using 2(4) [of d ds "takeWhile idchar cs" "dropWhile idchar cs"] dollar Cons named idc
            by (simp add: name_def rest_def)
          with True show ?thesis
            unfolding lhs rhs
            by (simp add: then_text_def split: sum.splits)
        next
          case False
          show ?thesis
            by (simp only: lhs rhs False if_False sum.case)
        qed
      next
        case bad
        with dollar Cons show ?thesis
          by (simp add: substitute.simps(2))
      qed
    qed
  qed
qed

lemma startswith_append: "startswith (p @ s) p"
  by (induction p) simp_all

lemma contains_append: "contains p (a @ p @ b)"
proof (induction a)
  case Nil
  show ?case
    using startswith_append [of p b] by (cases "p @ b") auto
next
  case (Cons c a)
  then show ?case by simp
qed

lemma substitute_scoping_clause:
  "substitute '' AND EID($fill)'' fill = Inr ('' AND EID('' @ fill @ '')'')"
  by (simp add: substitute.simps then_text_def idstart_def idchar_def isdigit_def)

lemma substitute_scoped_contains:
  assumes "substitute (q @ '' AND EID($fill)'') fill = Inr s"
  shows "contains ''AND EID('' s"
proof -
  from assms obtain s1 where "s = s1 @ '' AND EID('' @ fill @ '')''"
    using substitute_append_space [of q "''AND EID($fill)''" fill] substitute_scoping_clause [of fill]
    by (auto simp: then_text_def split: sum.splits)
  then have "s = (s1 @ '' '') @ ''AND EID('' @ (fill @ '')'')" by simp
  then show ?thesis
    using contains_append [of "''AND EID(''" "s1 @ '' ''" "fill @ '')''"] by simp
qed

text \<open>
  A text without a dollar sign is its own substitution, so the scoping clause appended
  to such a text is filled in and nothing else changes.
\<close>

lemma substitute_plain: "CHR ''$'' \<notin> set t \<Longrightarrow> substitute t fill = Inr t"
  by (induction t) (auto simp add: substitute.simps then_text_def)

lemma substitute_scoped:
  assumes "CHR ''$'' \<notin> set q"
  shows "substitute (q @ '' AND EID($fill)'') fill = Inr (q @ '' AND EID('' @ fill @ '')'')"
  using substitute_append_space [of q "''AND EID($fill)''" fill]
    substitute_plain [OF assms, of fill] substitute_scoping_clause [of fill]
  by (simp add: then_text_def)

section \<open>The batch query executor: stacked\_query\<close>

text \<open>An identifier of a group is a string or an integer; \<^verbatim>\<open>str(g)\<close> normalises it.\<close>

datatype ident = IdStr string | IdInt int

fun str :: "ident \<Rightarrow> string" where
  "str (IdStr s) = s"
| "str (IdInt n) = str_int n"

text \<open>
  What a run of the executor does to its surroundings, in order: \<open>Run q refresh ok\<close>
  is one call of the adapter with the query string \<open>q\<close>, where \<open>ok\<close> tells whether a
  list of records came back; \<open>Print_progress i total\<close> is one progress report.
\<close>

datatype event = Run string bool bool | Print_progress int int

text \<open>
  The list object that the parameter \<^verbatim>\<open>res\<close> refers to is extended in place, and
  every recursive call receives the same object (\<^verbatim>\<open>params["res"]\<close> is never
  reassigned). Its contents live in the state, with the trace and the state of the service.
\<close>

record ('r, 'w) state =
  res :: "'r list"
  trace :: "event list"
  world :: 'w

text \<open>
  How a call ends: with an exception, or with the pair \<^verbatim>\<open>(res, i)\<close> whose first
  component is the list object (\<open>Some\<close> of its contents at that moment) or Python's
  \<^verbatim>\<open>None\<close>.
\<close>

datatype 'r ret = Raise exc | Return "'r list option" int

text \<open>
  The parameter \<^verbatim>\<open>func\<close>: the adapter, a function of the query string, the
  refresh flag and the state of the service. It raises, or it returns a list or
  \<^verbatim>\<open>None\<close> (as \<open>query\<close> does).
\<close>

type_synonym ('r, 'w) func = "string \<Rightarrow> bool \<Rightarrow> 'w \<Rightarrow> (exc + 'r list option) \<times> 'w"

text \<open>
  Modelled from the spec: \<^verbatim>\<open>run\<close> of \<^verbatim>\<open>sosia.utils\<close> is not among the
  sources. The executor calls the external query adapter with the query it built:
  \<open>run\<close> applies \<open>func\<close> to the query string and the refresh flag. The call is
  written to the trace.
\<close>

definition run ::
  "('r, 'w) func \<Rightarrow> string \<Rightarrow> bool \<Rightarrow> ('r, 'w) state \<Rightarrow> (exc + 'r list option) \<times> ('r, 'w) state"
  where
  "run func q refresh st =
     (case func q refresh (world st) of
        (r, w') \<Rightarrow>
          (r, st\<lparr>world := w',
                 trace := trace st @
                   [Run q refresh (case r of Inr (Some found) \<Rightarrow> True | _ \<Rightarrow> False)]\<rparr>))"

text \<open>
  Modelled from the spec: \<^verbatim>\<open>print_progress\<close> of \<^verbatim>\<open>sosia.utils\<close> is not
  among the sources. It is a progress-printing function taking (done, total), a pure
  side effect with no effect on control flow: the report is written to the trace.
\<close>

definition print_progress :: "int \<Rightarrow> int \<Rightarrow> ('r, 'w) state \<Rightarrow> ('r, 'w) state" where
  "print_progress i tot st = st\<lparr>trace := trace st @ [Print_progress i tot]\<rparr>"

text \<open>\<^verbatim>\<open>if total:\<close> holds for an integer other than zero, not for \<^verbatim>\<open>None\<close> or 0.\<close>

definition truthy :: "int option \<Rightarrow> bool" where
  "truthy tot = (case tot of None \<Rightarrow> False | Some t \<Rightarrow> t \<noteq> 0)"

text \<open>The classes of \<^verbatim>\<open>except (Scopus400Error, ScopusQueryError, Scopus500Error)\<close>.\<close>

definition absorbed :: "exc \<Rightarrow> bool" where
  "absorbed e = (e = Scopus400Error \<or> e = ScopusQueryError \<or> e = Scopus500Error)"

text \<open>\<^verbatim>\<open>["*" + str(n) for n in range(0, 10)]\<close>.\<close>

definition groupeids :: "string list" where
  "groupeids = map (\<lambda>n. ''*'' @ str_int (int n)) [0..<10]"

text \<open>
  A template is open to the fallback when some filling of it gives a query string
  without the marker. This is the first component of the termination order; it is not
  part of the program.
\<close>

definition fallback_open :: "string \<Rightarrow> bool" where
  "fallback_open template =
     (\<exists>fill q. substitute template fill = Inr q \<and> \<not> contains ''AND EID('' q)"

lemma fallback_open_scoped: "\<not> fallback_open (q @ '' AND EID($fill)'')"
  using substitute_scoped_contains by (auto simp: fallback_open_def)

lemma fallback_openI:
  "substitute template fill = Inr q \<Longrightarrow> \<not> contains ''AND EID('' q \<Longrightarrow> fallback_open template"
  by (auto simp: fallback_open_def)

text \<open>
  \<^verbatim>\<open>stacked_query(group, res, query, joiner, func, refresh, i, total)\<close>. The
  template \<^verbatim>\<open>query\<close> is the text \<open>template\<close>; \<^verbatim>\<open>res\<close> is the list in the
  state. \<^verbatim>\<open>query.substitute\<close> stands before the \<^verbatim>\<open>try\<close>, so what it raises
  leaves the function; so does every exception of the adapter that the
  \<^verbatim>\<open>except\<close> clause does not name, and the TypeError of
  \<^verbatim>\<open>res.extend(None)\<close>.
\<close>

function stacked_query ::
  "ident list \<Rightarrow> string \<Rightarrow> string \<Rightarrow> ('r, 'w) func \<Rightarrow> bool \<Rightarrow> int \<Rightarrow> int option \<Rightarrow>
   ('r, 'w) state \<Rightarrow> 'r ret \<times> ('r, 'w) state"
  where
  "stacked_query grp template joiner func refresh i tot st =
     (let grp = map str grp in
      case substitute template (join joiner grp) of
        Inl e \<Rightarrow> (Raise e, st)
      | Inr q \<Rightarrow>
          (case run func q refresh st of
             (Inr None, st1) \<Rightarrow> (Raise TypeError, st1)
           | (Inr (Some found), st1) \<Rightarrow>
               (let st2 = st1\<lparr>res := res st1 @ found\<rparr> in
                if truthy tot then
                  (Return (Some (res st2)) (i + int (length grp)),
                   print_progress (i + int (length grp)) (the tot) st2)
                else (Return (Some (res st2)) i, st2))
           | (Inl e, st1) \<Rightarrow>
               if \<not> absorbed e then (Raise e, st1)
               else if length grp > 1 then
                 (let mid = length grp div 2 in
                  case stacked_query (map IdStr (take mid grp)) template joiner func refresh
                         i tot st1 of
                    (Raise e1, st2) \<Rightarrow> (Raise e1, st2)
                  | (Return res1 i1, st2) \<Rightarrow>
                      stacked_query (map IdStr (drop mid grp)) template joiner func refresh
                        i1 tot st2)
               else if \<not> contains ''AND EID('' q then
                 (let q' = q @ '' AND EID($fill)'';
                      mid = length groupeids div 2 in
                  case stacked_query (map IdStr (take mid groupeids)) q' '' OR '' func refresh
                         i None st1 of
                    (Raise e1, st2) \<Rightarrow> (Raise e1, st2)
                  | (Return res1 i1, st2) \<Rightarrow>
                      stacked_query (map IdStr (drop mid groupeids)) q' '' OR '' func refresh
                        i1 None st2)
               else (Return None i, st1)))"
  by pat_completeness auto
termination
proof (relation "measures [\<lambda>(grp, template, joiner, func, refresh, i, tot, st).
                               if fallback_open template then 1 else 0,
                            \<lambda>(grp, template, joiner, func, refresh, i, tot, st). length grp]",
       goal_cases)
  case 1
  show ?case by simp
next
  case 2
  then show ?case by simp
next
  case 3
  then show ?case by simp
next
  case 4
  then show ?case
    by (simp add: fallback_open_scoped fallback_openI)
next
  case 5
  then show ?case
    by (simp add: fallback_open_scoped fallback_openI)
qed

declare stacked_query.simps [simp del]

lemma groupeids_eq:
  "groupeids = [''*0'', ''*1'', ''*2'', ''*3'', ''*4'', ''*5'', ''*6'', ''*7'', ''*8'', ''*9'']"
  by (simp add: groupeids_def upt_rec str_int_def str_nat_small digit_char_def)

section \<open>Induction over the runs of stacked\_query\<close>

text \<open>
  One case for each way through the function, for a fixed adapter and refresh flag;
  the predicate relates the arguments of a call to its outcome.
\<close>

lemma stacked_query_induct [case_names template_raises adapter_none adapter_records
    adapter_raises bisect_raises bisect fallback_raises fallback give_up]:
  fixes P :: "ident list \<Rightarrow> string \<Rightarrow> string \<Rightarrow> int \<Rightarrow> int option \<Rightarrow> ('r, 'w) state \<Rightarrow>
              'r ret \<times> ('r, 'w) state \<Rightarrow> bool"
  assumes template_raises: "\<And>grp template joiner i tot st e.
      substitute template (join joiner (map str grp)) = Inl e \<Longrightarrow>
      P grp template joiner i tot st (Raise e, st)"
    and adapter_none: "\<And>grp template joiner i tot st q st1.
      substitute template (join joiner (map str grp)) = Inr q \<Longrightarrow>
      run func q refresh st = (Inr None, st1) \<Longrightarrow>
      P grp template joiner i tot st (Raise TypeError, st1)"
    and adapter_records: "\<And>grp template joiner i tot st q found st1.
      substitute template (join joiner (map str grp)) = Inr q \<Longrightarrow>
      run func q refresh st = (Inr (Some found), st1) \<Longrightarrow>
      P grp template joiner i tot st
        (if truthy tot then
           (Return (Some (res st1 @ found)) (i + int (length grp)),
            print_progress (i + int (length grp)) (the tot) (st1\<lparr>res := res st1 @ found\<rparr>))
         else (Return (Some (res st1 @ found)) i, st1\<lparr>res := res st1 @ found\<rparr>))"
    and adapter_raises: "\<And>grp template joiner i tot st q e st1.
      substitute template (join joiner (map str grp)) = Inr q \<Longrightarrow>
      run func q refresh st = (Inl e, st1) \<Longrightarrow> \<not> absorbed e \<Longrightarrow>
      P grp template joiner i tot st (Raise e, st1)"
    and bisect_raises: "\<And>grp template joiner i tot st q e st1 e1 st2.
      substitute template (join joiner (map str grp)) = Inr q \<Longrightarrow>
      run func q refresh st = (Inl e, st1) \<Longrightarrow> absorbed e \<Longrightarrow> 1 < length grp \<Longrightarrow>
      stacked_query (map IdStr (take (length grp div 2) (map str grp))) template joiner func
        refresh i tot st1 = (Raise e1, st2) \<Longrightarrow>
      P (map IdStr (take (length grp div 2) (map str grp))) template joiner i tot st1
        (Raise e1, st2) \<Longrightarrow>
      P grp template joiner i tot st (Raise e1, st2)"
    and bisect: "\<And>grp template joiner i tot st q e st1 res1 i1 st2 out.
      substitute template (join joiner (map str grp)) = Inr q \<Longrightarrow>
      run func q refresh st = (Inl e, st1) \<Longrightarrow> absorbed e \<Longrightarrow> 1 < length grp \<Longrightarrow>
      stacked_query (map IdStr (take (length grp div 2) (map str grp))) template joiner func
        refresh i tot st1 = (Return res1 i1, st2) \<Longrightarrow>
      P (map IdStr (take (length grp div 2) (map str grp))) template joiner i tot st1
        (Return res1 i1, st2) \<Longrightarrow>
      stacked_query (map IdStr (drop (length grp div 2) (map str grp))) template joiner func
        refresh i1 tot st2 = out \<Longrightarrow>
      P (map IdStr (drop (length grp div 2) (map str grp))) template joiner i1 tot st2 out \<Longrightarrow>
      P grp template joiner i tot st out"
    and fallback_raises: "\<And>grp template joiner i tot st q e st1 e1 st2.
      substitute template (join joiner (map str grp)) = Inr q \<Longrightarrow>
      run func q refresh st = (Inl e, st1) \<Longrightarrow> absorbed e \<Longrightarrow> length grp \<le> 1 \<Longrightarrow>
      \<not> contains ''AND EID('' q \<Longrightarrow>
      stacked_query (map IdStr (take 5 groupeids)) (q @ '' AND EID($fill)'') '' OR '' func
        refresh i None st1 = (Raise e1, st2) \<Longrightarrow>
      P (map IdStr (take 5 groupeids)) (q @ '' AND EID($fill)'') '' OR '' i None st1
        (Raise e1, st2) \<Longrightarrow>
      P grp template joiner i tot st (Raise e1, st2)"
    and fallback: "\<And>grp template joiner i tot st q e st1 res1 i1 st2 out.
      substitute template (join joiner (map str grp)) = Inr q \<Longrightarrow>
      run func q refresh st = (Inl e, st1) \<Longrightarrow> absorbed e \<Longrightarrow> length grp \<le> 1 \<Longrightarrow>
      \<not> contains ''AND EID('' q \<Longrightarrow>
      stacked_query (map IdStr (take 5 groupeids)) (q @ '' AND EID($fill)'') '' OR '' func
        refresh i None st1 = (Return res1 i1, st2) \<Longrightarrow>
      P (map IdStr (take 5 groupeids)) (q @ '' AND EID($fill)'') '' OR '' i None st1
        (Return res1 i1, st2) \<Longrightarrow>
      stacked_query (map IdStr (drop 5 groupeids)) (q @ '' AND EID($fill)'') '' OR '' func
        refresh i1 None st2 = out \<Longrightarrow>
      P (map IdStr (drop 5 groupeids)) (q @ '' AND EID($fill)'') '' OR '' i1 None st2 out \<Longrightarrow>
      P grp template joiner i tot st out"
    and give_up: "\<And>grp template joiner i tot st q e st1.
      substitute template (join joiner (map str grp)) = Inr q \<Longrightarrow>
      run func q refresh st = (Inl e, st1) \<Longrightarrow> absorbed e \<Longrightarrow> length grp \<le> 1 \<Longrightarrow>
      contains ''AND EID('' q \<Longrightarrow>
      P grp template joiner i tot st (Return None i, st1)"
  shows "P grp template joiner i tot st (stacked_query grp template joiner func refresh i tot st)"
proof -
  have len5: "length groupeids div 2 = 5"
    by (simp add: groupeids_def)
  have "func' = func \<Longrightarrow> refresh' = refresh \<Longrightarrow>
        P grp template joiner i tot st (stacked_query grp template joiner func' refresh' i tot st)"
    for func' refresh'
  proof (induction grp template joiner func' refresh' i tot st rule: stacked_query.induct)
    case (1 grp template joiner func' refresh' i tot st)
    note same = "1.prems"
    note unfold = stacked_query.simps [of grp template joiner func refresh i tot st]
    let ?g = "map str grp"
    show ?case
      unfolding same
    proof (cases "substitute template (join joiner ?g)")
      case (Inl e)
      then have "stacked_query grp template joiner func refresh i tot st = (Raise e, st)"
        by (simp add: unfold)
      with template_raises [OF Inl] show "P grp template joiner i tot st
          (stacked_query grp template joiner func refresh i tot st)"
        by simp
    next
      case (Inr q)
      obtain r st1 where ran: "run func q refresh st = (r, st1)"
        by (cases "run func q refresh st")
      consider (none) "r = Inr None" | (records) found where "r = Inr (Some found)"
        | (raises) e where "r = Inl e" "\<not> absorbed e"
        | (split) e where "r = Inl e" "absorbed e" "1 < length grp"
        | (leaf) e where "r = Inl e" "absorbed e" "length grp \<le> 1"
      proof (cases r)
        case (Inl e)
        then show ?thesis
          using that(3,4,5) by (cases "absorbed e"; cases "1 < length grp") auto
      next
        case (Inr v)
        then show ?thesis
          using that(1,2) by (cases v) auto
      qed
      then show "P grp template joiner i tot st
          (stacked_query grp template joiner func refresh i tot st)"
      proof cases
        case none
        with Inr ran have "stacked_query grp template joiner func refresh i tot st =
            (Raise TypeError, st1)"
          by (simp add: unfold)
        with adapter_none [OF Inr ran [unfolded none]] show ?thesis
          by simp
      next
        case records
        with Inr ran have "stacked_query grp template joiner func refresh i tot st =
            (if truthy tot then
               (Return (Some (res st1 @ found)) (i + int (length grp)),
                print_progress (i + int (length grp)) (the tot) (st1\<lparr>res := res st1 @ found\<rparr>))
             else (Return (Some (res st1 @ found)) i, st1\<lparr>res := res st1 @ found\<rparr>))"
          by (simp add: unfold Let_def)
        with adapter_records [OF Inr ran [unfolded records]] show ?thesis
          by simp
      next
        case raises
        with Inr ran have "stacked_query grp template joiner func refresh i tot st =
            (Raise e, st1)"
          by (simp add: unfold)
        with adapter_raises [OF Inr ran [unfolded raises(1)] raises(2)] show ?thesis
          by simp
      next
        case split
        let ?mid = "length grp div 2"
        let ?first = "stacked_query (map IdStr (take ?mid ?g)) template joiner func refresh i tot st1"
        have ran': "run func q refresh st = (Inl e, st1)"
          using ran split by simp
        have IH1: "P (map IdStr (take ?mid ?g)) template joiner i tot st1 ?first"
          using "1.IH"(1) [OF refl Inr ran' [symmetric, unfolded same [symmetric]] refl] split same
          by simp
        obtain o1 st2 where first: "?first = (o1, st2)"
          by (cases ?first)
        show ?thesis
        proof (cases o1)
          case (Raise e1)
          with Inr ran' split first
          have "stacked_query grp template joiner func refresh i tot st = (Raise e1, st2)"
            by (simp add: unfold Let_def)
          with bisect_raises [OF Inr ran' split(2) split(3)] first Raise IH1 show ?thesis
            by simp
        next
          case (Return res1 i1)
          let ?second = "stacked_query (map IdStr (drop ?mid ?g)) template joiner func refresh i1 tot st2"
          from Inr ran' split first Return
          have eq: "stacked_query grp template joiner func refresh i tot st = ?second"
            by (simp add: unfold Let_def)
          have IH2: "P (map IdStr (drop ?mid ?g)) template joiner i1 tot st2 ?second"
            using "1.IH"(2) [of ?g q "Inl e" st1 e ?mid "Return res1 i1" st2 res1 i1]
              Inr ran' split first Return same
            by simp
          from bisect [OF Inr ran' split(2) split(3) _ _ refl IH2] first Return IH1
          show ?thesis
            unfolding eq by simp
        qed
      next
        case leaf
        have ran': "run func q refresh st = (Inl e, st1)"
          using ran leaf by simp
        show ?thesis
        proof (cases "contains ''AND EID('' q")
          case True
          with Inr ran' leaf
          have "stacked_query grp template joiner func refresh i tot st = (Return None i, st1)"
            by (simp add: unfold Let_def)
          with give_up [OF Inr ran' leaf(2) leaf(3) True] show ?thesis
            by simp
        next
          case False
          let ?q' = "q @ '' AND EID($fill)''"
          let ?first = "stacked_query (map IdStr (take 5 groupeids)) ?q' '' OR '' func refresh i None st1"
          have IH1: "P (map IdStr (take 5 groupeids)) ?q' '' OR '' i None st1 ?first"
            using "1.IH"(3) [of ?g q "Inl e" st1 e ?q' 5] Inr ran' leaf False same len5
            by simp
          obtain o1 st2 where first: "?first = (o1, st2)"
            by (cases ?first)
          show ?thesis
          proof (cases o1)
            case (Raise e1)
            with Inr ran' leaf False first
            have "stacked_query grp template joiner func refresh i tot st = (Raise e1, st2)"
              by (simp add: unfold Let_def len5)
            with fallback_raises [OF Inr ran' leaf(2) leaf(3) False] first Raise IH1
            show ?thesis
              by simp
          next
            case (Return res1 i1)
            let ?second = "stacked_query (map IdStr (drop 5 groupeids)) ?q' '' OR '' func refresh i1 None st2"
            from Inr ran' leaf False first Return
            have eq: "stacked_query grp template joiner func refresh i tot st = ?second"
              by (simp add: unfold Let_def len5)
            have IH2: "P (map IdStr (drop 5 groupeids)) ?q' '' OR '' i1 None st2 ?second"
              using "1.IH"(4) [of ?g q "Inl e" st1 e ?q' 5 "Return res1 i1" st2 res1 i1]
                Inr ran' leaf False first Return same len5
              by simp
            from fallback [OF Inr ran' leaf(2) leaf(3) False _ _ refl IH2] first Return IH1
            show ?thesis
              unfolding eq by simp
          qed
        qed
      qed
    qed
  qed
  then show ?thesis
    by simp
qed

section \<open>Properties of every run\<close>

text \<open>The number of adapter calls in a trace.\<close>

fun adapter_calls :: "event list \<Rightarrow> nat" where
  "adapter_calls [] = 0"
| "adapter_calls (Run q refresh b # es) = Suc (adapter_calls es)"
| "adapter_calls (Print_progress i t # es) = adapter_calls es"

lemma adapter_calls_append: "adapter_calls (xs @ ys) = adapter_calls xs + adapter_calls ys"
  by (induction xs rule: adapter_calls.induct) simp_all

lemma run_state:
  assumes "run func q refresh st = (r, st1)"
  shows "trace st1 = trace st @ [Run q refresh (case r of Inr (Some found) \<Rightarrow> True | _ \<Rightarrow> False)]"
    and "res st1 = res st"
  using assms by (auto simp: run_def split: prod.splits)

lemma returned_list_is_res:
  "\<forall>xs i'. fst (stacked_query grp template joiner func refresh i tot st) = Return (Some xs) i' \<longrightarrow>
     xs = res (snd (stacked_query grp template joiner func refresh i tot st))"
  by (rule stacked_query_induct [where P = "\<lambda>grp template joiner i tot st out.
        \<forall>xs i'. fst out = Return (Some xs) i' \<longrightarrow> xs = res (snd out)"])
     (simp_all add: print_progress_def)

text \<open>
  The bound on the adapter calls of one run: a binary tree over the group, and under each
  of its leaves at most once the two trees over five suffix tokens each.
\<close>

definition call_bound :: "string \<Rightarrow> nat \<Rightarrow> nat" where
  "call_bound template n = (if fallback_open template then 20 else 2) * max 1 n - 1"

lemma call_bound_pos: "1 \<le> call_bound template n"
  by (cases "1 \<le> n") (auto simp: call_bound_def max_def)

lemma call_bound_halves:
  assumes "1 < n"
  shows "Suc (call_bound template (n div 2) + call_bound template (n - n div 2)) \<le> call_bound template n"
proof -
  define a where "a = n div 2"
  define b where "b = n - n div 2"
  have ab: "1 \<le> a" "1 \<le> b" "n = a + b"
    using assms by (auto simp: a_def b_def)
  show ?thesis
    unfolding a_def [symmetric] b_def [symmetric]
    using ab by (cases "fallback_open template") (auto simp: call_bound_def max_def)
qed

lemma call_bound_half:
  assumes "1 < n"
  shows "Suc (call_bound template (n div 2)) \<le> call_bound template n"
  using call_bound_halves [OF assms, of template] by simp

lemma call_bound_scoped: "call_bound (q @ '' AND EID($fill)'') 5 = 9"
  by (simp add: call_bound_def fallback_open_scoped)

lemma call_bound_open: "fallback_open template \<Longrightarrow> 19 \<le> call_bound template n"
  by (cases "1 \<le> n") (auto simp: call_bound_def max_def)

lemma length_groupeids: "length groupeids = 10"
  by (simp add: groupeids_def)

lemma adapter_calls_tiered:
  "adapter_calls (trace (snd (stacked_query grp template joiner func refresh i tot st)))
     \<le> adapter_calls (trace st) + call_bound template (length grp)"
proof (rule stacked_query_induct [where P = "\<lambda>grp template joiner i tot st out.
        adapter_calls (trace (snd out)) \<le> adapter_calls (trace st) + call_bound template (length grp)"],
    goal_cases)
  case (1 grp template joiner i tot st e)
  show ?case by simp
next
  case (2 grp template joiner i tot st q st1)
  then show ?case
    using call_bound_pos [of template "length grp"]
    by (simp add: run_state adapter_calls_append)
next
  case (3 grp template joiner i tot st q found st1)
  then show ?case
    using call_bound_pos [of template "length grp"]
    by (simp add: run_state adapter_calls_append print_progress_def)
next
  case (4 grp template joiner i tot st q e st1)
  then show ?case
    using call_bound_pos [of template "length grp"]
    by (simp add: run_state adapter_calls_append)
next
  case (5 grp template joiner i tot st q e st1 e1 st2)
  then show ?case
    using call_bound_half [of "length grp" template]
    by (simp add: run_state adapter_calls_append)
next
  case (6 grp template joiner i tot st q e st1 res1 i1 st2 out)
  then show ?case
    using call_bound_halves [of "length grp" template]
    by (simp add: run_state adapter_calls_append)
next
  case (7 grp template joiner i tot st q e st1 e1 st2)
  then show ?case
    using call_bound_open [OF fallback_openI, of template "join joiner (map str grp)" q "length grp"]
    by (simp add: run_state adapter_calls_append call_bound_scoped length_groupeids)
next
  case (8 grp template joiner i tot st q e st1 res1 i1 st2 out)
  then show ?case
    using call_bound_open [OF fallback_openI, of template "join joiner (map str grp)" q "length grp"]
    by (simp add: run_state adapter_calls_append call_bound_scoped length_groupeids)
next
  case (9 grp template joiner i tot st q e st1)
  then show ?case
    using call_bound_pos [of template "length grp"]
    by (simp add: run_state adapter_calls_append)
qed

lemma call_bound_le: "call_bound template n \<le> 20 * max 1 n - 1"
  by (cases "1 \<le> n") (auto simp: call_bound_def max_def)

text \<open>
  C4: \<open>stacked_query\<close> terminates on every input. It is a total function: its
  recursion descends in the order (fallback still open, size of the group), the
  fallback being closed for every template that ends in the scoping clause. The
  number of adapter calls of a run on a group of \<open>n\<close> identifiers is bounded by
  \<open>20 * max 1 n - 1\<close>.
\<close>

theorem stacked_query_terminates:
  "adapter_calls (trace (snd (stacked_query grp template joiner func refresh i tot st)))
     \<le> adapter_calls (trace st) + (20 * max 1 (length grp) - 1)"
  using adapter_calls_tiered [of grp template joiner func refresh i tot st]
    call_bound_le [of template "length grp"]
  by linarith

text \<open>
  The trace of a call extends the trace it found; the counter it returns is not below
  the one it was given, and is above it only when the total is truthy and the new part
  of the trace holds an adapter call that returned records.
\<close>

definition counter_inv ::
  "int \<Rightarrow> int option \<Rightarrow> ('r, 'w) state \<Rightarrow> 'r ret \<times> ('r, 'w) state \<Rightarrow> bool" where
  "counter_inv i tot st out =
     (\<exists>new. trace (snd out) = trace st @ new \<and>
        (\<forall>r i'. fst out = Return r i' \<longrightarrow>
           i \<le> i' \<and> (i < i' \<longrightarrow> truthy tot \<and> (\<exists>q rf. Run q rf True \<in> set new))))"

lemma counter_inv_leaf:
  assumes "trace st1 = trace st @ [Run q refresh b]"
  shows "counter_inv i tot st (Raise e, st1)" and "counter_inv i tot st (Return r i, st1)"
  using assms by (simp_all add: counter_inv_def)

lemma counter_inv_raise:
  assumes "trace st1 = trace st @ [Run q refresh b]" and "counter_inv i tot st1 (Raise e, st2)"
  shows "counter_inv i tot' st (Raise e, st2)"
  using assms by (auto simp: counter_inv_def)

lemma counter_inv_seq:
  assumes ran: "trace st1 = trace st @ [Run q refresh b]"
    and first: "counter_inv i tot st1 (Return res1 i1, st2)"
    and second: "counter_inv i1 tot st2 out"
  shows "counter_inv i tot st out"
proof -
  from first obtain new1 where new1: "trace st2 = trace st1 @ new1" "i \<le> i1"
      "i < i1 \<longrightarrow> truthy tot \<and> (\<exists>q rf. Run q rf True \<in> set new1)"
    by (auto simp: counter_inv_def)
  from second obtain new2 where new2: "trace (snd out) = trace st2 @ new2"
      "\<forall>r i'. fst out = Return r i' \<longrightarrow>
         i1 \<le> i' \<and> (i1 < i' \<longrightarrow> truthy tot \<and> (\<exists>q rf. Run q rf True \<in> set new2))"
    by (auto simp: counter_inv_def)
  let ?new = "[Run q refresh b] @ new1 @ new2"
  have "trace (snd out) = trace st @ ?new"
    using ran new1(1) new2(1) by simp
  moreover have "i \<le> i' \<and> (i < i' \<longrightarrow> truthy tot \<and> (\<exists>q rf. Run q rf True \<in> set ?new))"
    if "fst out = Return r i'" for r i'
  proof -
    from new2(2) that have le: "i1 \<le> i'"
      and up: "i1 < i' \<longrightarrow> truthy tot \<and> (\<exists>q rf. Run q rf True \<in> set new2)"
      by blast+
    have "i \<le> i'"
      using new1(2) le by simp
    moreover have "truthy tot \<and> (\<exists>q rf. Run q rf True \<in> set ?new)" if "i < i'"
    proof (cases "i < i1")
      case True
      with new1(3) show ?thesis by auto
    next
      case False
      with that new1(2) have "i1 < i'" by simp
      with up show ?thesis by auto
    qed
    ultimately show ?thesis by simp
  qed
  ultimately show ?thesis
    unfolding counter_inv_def by blast
qed

lemma counter_inv_None:
  assumes "counter_inv i None st out"
  shows "counter_inv i tot st out"
proof -
  from assms obtain new where new: "trace (snd out) = trace st @ new"
      "\<forall>r i'. fst out = Return r i' \<longrightarrow> i \<le> i' \<and> \<not> i < i'"
    by (auto simp: counter_inv_def truthy_def)
  then have "\<forall>r i'. fst out = Return r i' \<longrightarrow>
      i \<le> i' \<and> (i < i' \<longrightarrow> truthy tot \<and> (\<exists>q rf. Run q rf True \<in> set new))"
    by simp
  with new(1) show ?thesis
    unfolding counter_inv_def by blast
qed

lemma counter_invariant:
  "counter_inv i tot st (stacked_query grp template joiner func refresh i tot st)"
proof (rule stacked_query_induct [where P = "\<lambda>grp template joiner i tot st out.
        counter_inv i tot st out"], goal_cases)
  case (1 grp template joiner i tot st e)
  show ?case by (simp add: counter_inv_def)
next
  case (2 grp template joiner i tot st q st1)
  then show ?case
    by (intro counter_inv_leaf) (rule run_state)
next
  case (3 grp template joiner i tot st q found st1)
  from run_state(1) [OF 3(2)] show ?case
    by (simp add: counter_inv_def print_progress_def)
next
  case (4 grp template joiner i tot st q e st1)
  then show ?case
    by (intro counter_inv_leaf) (rule run_state)
next
  case (5 grp template joiner i tot st q e st1 e1 st2)
  from run_state(1) [OF 5(2)] 5(6) show ?case
    by (rule counter_inv_raise)
next
  case (6 grp template joiner i tot st q e st1 res1 i1 st2 out)
  from run_state(1) [OF 6(2)] 6(6) 6(8) show ?case
    by (rule counter_inv_seq)
next
  case (7 grp template joiner i tot st q e st1 e1 st2)
  from run_state(1) [OF 7(2)] 7(7) show ?case
    by (rule counter_inv_raise)
next
  case (8 grp template joiner i tot st q e st1 res1 i1 st2 out)
  from run_state(1) [OF 8(2)] 8(7) 8(9) have "counter_inv i None st out"
    by (rule counter_inv_seq)
  then show ?case
    by (rule counter_inv_None)
next
  case (9 grp template joiner i tot st q e st1)
  then show ?case
    by (intro counter_inv_leaf) (rule run_state)
qed

lemma trace_extends:
  "\<exists>new. trace (snd (stacked_query grp template joiner func refresh i tot st)) = trace st @ new"
  using counter_invariant [of i tot st grp template joiner func refresh]
  unfolding counter_inv_def by blast

lemma trace_after:
  assumes "stacked_query grp template joiner func refresh i tot st = (out, st')"
  shows "\<exists>new. trace st' = trace st @ new"
  using trace_extends [of grp template joiner func refresh i tot st] assms by simp

text \<open>
  A call whose template can be filled calls the adapter with the query string built, and
  does so before anything else it writes to the trace.
\<close>

definition queries_first ::
  "bool \<Rightarrow> ident list \<Rightarrow> string \<Rightarrow> string \<Rightarrow> ('r, 'w) state \<Rightarrow> 'r ret \<times> ('r, 'w) state \<Rightarrow> bool"
  where
  "queries_first refresh grp template joiner st out =
     (\<forall>q. substitute template (join joiner (map str grp)) = Inr q \<longrightarrow>
        (\<exists>b more. trace (snd out) = trace st @ Run q refresh b # more))"

lemma queries_firstI:
  assumes "substitute template (join joiner (map str grp)) = Inr q"
    and "run func q refresh st = (r, st1)"
    and "trace (snd out) = trace st1 @ new"
  shows "queries_first refresh grp template joiner st out"
  using assms(1,3) run_state(1) [OF assms(2)] by (simp add: queries_first_def)

lemma first_query:
  "queries_first refresh grp template joiner st
     (stacked_query grp template joiner func refresh i tot st)"
proof (rule stacked_query_induct [where P = "\<lambda>grp template joiner i tot st out.
        queries_first refresh grp template joiner st out"], goal_cases)
  case (1 grp template joiner i tot st e)
  then show ?case by (simp add: queries_first_def)
next
  case (2 grp template joiner i tot st q st1)
  then show ?case by (rule queries_firstI [where new = "[]"]) simp
next
  case (3 grp template joiner i tot st q found st1)
  show ?case
  proof (cases "truthy tot")
    case True
    from 3 show ?thesis
      by (rule queries_firstI
          [where new = "[Print_progress (i + int (length grp)) (the tot)]"])
        (simp add: True print_progress_def)
  next
    case False
    from 3 show ?thesis
      by (rule queries_firstI [where new = "[]"]) (simp add: False)
  qed
next
  case (4 grp template joiner i tot st q e st1)
  from 4(1,2) show ?case by (rule queries_firstI [where new = "[]"]) simp
next
  case (5 grp template joiner i tot st q e st1 e1 st2)
  from trace_after [OF 5(5)] obtain new where "trace st2 = trace st1 @ new" ..
  with 5(1,2) show ?case by (intro queries_firstI [where new = new]) simp_all
next
  case (6 grp template joiner i tot st q e st1 res1 i1 st2 out)
  from trace_after [OF 6(5)] obtain new1 where "trace st2 = trace st1 @ new1" ..
  moreover have "\<exists>new. trace (snd out) = trace st2 @ new"
    unfolding 6(7) [symmetric] by (rule trace_extends)
  then obtain new2 where "trace (snd out) = trace st2 @ new2" ..
  ultimately have "trace (snd out) = trace st1 @ (new1 @ new2)" by simp
  with 6(1,2) show ?case by (intro queries_firstI) simp_all
next
  case (7 grp template joiner i tot st q e st1 e1 st2)
  from trace_after [OF 7(6)] obtain new where "trace st2 = trace st1 @ new" ..
  with 7(1,2) show ?case by (intro queries_firstI [where new = new]) simp_all
next
  case (8 grp template joiner i tot st q e st1 res1 i1 st2 out)
  from trace_after [OF 8(6)] obtain new1 where "trace st2 = trace st1 @ new1" ..
  moreover have "\<exists>new. trace (snd out) = trace st2 @ new"
    unfolding 8(8) [symmetric] by (rule trace_extends)
  then obtain new2 where "trace (snd out) = trace st2 @ new2" ..
  ultimately have "trace (snd out) = trace st1 @ (new1 @ new2)" by simp
  with 8(1,2) show ?case by (intro queries_firstI) simp_all
next
  case (9 grp template joiner i tot st q e st1)
  from 9(1,2) show ?case by (rule queries_firstI [where new = "[]"]) simp
qed

text \<open>The list only grows.\<close>

lemma res_extends:
  "\<exists>more. res (snd (stacked_query grp template joiner func refresh i tot st)) = res st @ more"
proof (rule stacked_query_induct [where P = "\<lambda>grp template joiner i tot st out.
        \<exists>more. res (snd out) = res st @ more"], goal_cases)
  case (1 grp template joiner i tot st e)
  show ?case by simp
next
  case (2 grp template joiner i tot st q st1)
  then show ?case by (simp add: run_state(2))
next
  case (3 grp template joiner i tot st q found st1)
  then show ?case by (simp add: run_state(2) print_progress_def)
next
  case (4 grp template joiner i tot st q e st1)
  then show ?case by (simp add: run_state(2))
next
  case (5 grp template joiner i tot st q e st1 e1 st2)
  then show ?case by (simp add: run_state(2))
next
  case (6 grp template joiner i tot st q e st1 res1 i1 st2 out)
  then show ?case by (auto simp add: run_state(2))
next
  case (7 grp template joiner i tot st q e st1 e1 st2)
  then show ?case by (simp add: run_state(2))
next
  case (8 grp template joiner i tot st q e st1 res1 i1 st2 out)
  then show ?case by (auto simp add: run_state(2))
next
  case (9 grp template joiner i tot st q e st1)
  then show ?case by (simp add: run_state(2))
qed

section \<open>Adapters and states for concrete runs\<close>

text \<open>
  An adapter that rejects every query string longer than \<open>k\<close> characters, one that
  rejects every query string that contains \<open>bad\<close>, and one that rejects every query
  string without a scoping clause. Each answers a query it accepts with the query string
  itself as the one record found, and counts its calls in the state of the service.
  Two more raise an error that the executor does not catch: \<open>missing\<close> rejects every
  query of more than one identifier and has nothing under the identifier \<open>bad\<close>;
  \<open>lost_when_scoped\<close> rejects every query without a scoping clause and has nothing
  under any query with one.
\<close>

definition too_long :: "nat \<Rightarrow> (string, nat) func" where
  "too_long k q refresh w =
     (if k < length q then (Inl Scopus400Error, Suc w) else (Inr (Some [q]), Suc w))"

definition rejecting :: "string \<Rightarrow> (string, nat) func" where
  "rejecting bad q refresh w =
     (if contains bad q then (Inl Scopus400Error, Suc w) else (Inr (Some [q]), Suc w))"

definition needs_scope :: "(string, nat) func" where
  "needs_scope q refresh w =
     (if contains ''EID('' q then (Inr (Some [q]), Suc w) else (Inl ScopusQueryError, Suc w))"

definition missing :: "string \<Rightarrow> (string, nat) func" where
  "missing bad q refresh w =
     (if contains '' OR '' q then (Inl Scopus400Error, Suc w)
      else if contains bad q then (Inl Scopus404Error, Suc w)
      else (Inr (Some [q]), Suc w))"

definition lost_when_scoped :: "(string, nat) func" where
  "lost_when_scoped q refresh w =
     (if contains ''EID('' q then (Inl Scopus404Error, Suc w) else (Inl Scopus400Error, Suc w))"

definition st0 :: "(string, nat) state" where
  "st0 = \<lparr>res = [], trace = [], world = 0\<rparr>"

text \<open>The equations that evaluate a concrete run.\<close>

lemmas eval = substitute.simps then_text_def idstart_def idchar_def isdigit_def
  str_int_def str_nat_small str_nat_large digit_char_def run_def print_progress_def truthy_def
  absorbed_def too_long_def rejecting_def needs_scope_def missing_def lost_when_scoped_def
  st0_def Let_def groupeids_eq

text \<open>
  The bound on the adapter calls is reached: when every query is rejected, one
  identifier costs nineteen calls, one for the identifier and nine for each half of the
  tokens.
\<close>

lemma call_bound_reached:
  "adapter_calls (trace (snd (stacked_query [IdInt 1] ''AU-ID($fill)'' '' OR '' (too_long 0)
      False 0 None st0))) = 19"
  by (simp add: stacked_query.simps eval)

section \<open>The claims about stacked\_query\<close>

text \<open>
  The last branch: a group of at most one identifier whose query string already holds
  the marker. The call ends there, with \<^verbatim>\<open>None\<close> in the place of the list.
\<close>

lemma give_up_returns_None:
  assumes "substitute template (join joiner (map str grp)) = Inr q"
    and "run func q refresh st = (Inl e, st1)"
    and "absorbed e"
    and "length grp \<le> 1"
    and "contains ''AND EID('' q"
  shows "stacked_query grp template joiner func refresh i tot st = (Return None i, st1)"
  using assms by (simp add: stacked_query.simps [of grp])

text \<open>
  C1, as amended: when the adapter call fails with an error of the \<^verbatim>\<open>except\<close>
  clause and the group has more than one identifier, the normalised group is cut at
  \<open>length grp div 2\<close> and the first half is processed. An exception of the first half
  ends the call. Otherwise the second half is processed, with the counter that the first
  half returned and in the state that the first half left: the list it receives is the
  list object that the call received, as the first half extended it in place, and a list
  that the first half returns is that list. The result of the second half is the result
  of the call.
\<close>

theorem stacked_query_bisects:
  assumes "substitute template (join joiner (map str grp)) = Inr q"
    and "run func q refresh st = (Inl e, st1)"
    and "absorbed e"
    and "1 < length grp"
  shows "stacked_query grp template joiner func refresh i tot st =
      (case stacked_query (map IdStr (take (length grp div 2) (map str grp)))
              template joiner func refresh i tot st1 of
         (Raise e1, st2) \<Rightarrow> (Raise e1, st2)
       | (Return res1 i1, st2) \<Rightarrow>
           stacked_query (map IdStr (drop (length grp div 2) (map str grp)))
             template joiner func refresh i1 tot st2)
    \<and> (\<forall>res1 i1 st2.
          stacked_query (map IdStr (take (length grp div 2) (map str grp)))
            template joiner func refresh i tot st1 = (Return res1 i1, st2)
          \<longrightarrow> (\<exists>more. res st2 = res st @ more) \<and> (\<forall>xs. res1 = Some xs \<longrightarrow> xs = res st2))"
proof
  show "stacked_query grp template joiner func refresh i tot st =
      (case stacked_query (map IdStr (take (length grp div 2) (map str grp)))
              template joiner func refresh i tot st1 of
         (Raise e1, st2) \<Rightarrow> (Raise e1, st2)
       | (Return res1 i1, st2) \<Rightarrow>
           stacked_query (map IdStr (drop (length grp div 2) (map str grp)))
             template joiner func refresh i1 tot st2)"
    using assms by (simp add: stacked_query.simps [of grp] Let_def)
next
  show "\<forall>res1 i1 st2.
          stacked_query (map IdStr (take (length grp div 2) (map str grp)))
            template joiner func refresh i tot st1 = (Return res1 i1, st2)
          \<longrightarrow> (\<exists>more. res st2 = res st @ more) \<and> (\<forall>xs. res1 = Some xs \<longrightarrow> xs = res st2)"
    using returned_list_is_res
      [of "map IdStr (take (length grp div 2) (map str grp))" template joiner func refresh i tot st1]
      res_extends
      [of "map IdStr (take (length grp div 2) (map str grp))" template joiner func refresh i tot st1]
      run_state(2) [OF assms(2)]
    by auto
qed

theorem stacked_query_bisects_witness:
  "stacked_query [IdInt 1, IdInt 2] ''AU-ID($fill)'' '' OR '' (too_long 8) False 0 (Some 2) st0 =
     (Return (Some [''AU-ID(1)'', ''AU-ID(2)'']) 2,
      \<lparr>res = [''AU-ID(1)'', ''AU-ID(2)''],
       trace = [Run ''AU-ID(1 OR 2)'' False False,
                Run ''AU-ID(1)'' False True, Print_progress 1 2,
                Run ''AU-ID(2)'' False True, Print_progress 2 2],
       world = 3\<rparr>)"
proof -
  have built: "substitute ''AU-ID($fill)'' (join '' OR '' (map str [IdInt 1, IdInt 2])) =
      Inr ''AU-ID(1 OR 2)''"
    by (simp add: eval)
  have ran: "run (too_long 8) ''AU-ID(1 OR 2)'' False st0 =
      (Inl Scopus400Error, \<lparr>res = [], trace = [Run ''AU-ID(1 OR 2)'' False False], world = 1\<rparr>)"
    by (simp add: eval)
  have caught: "absorbed Scopus400Error"
    by (simp add: absorbed_def)
  have many: "1 < length [IdInt 1, IdInt 2]"
    by simp
  show ?thesis
    using stacked_query_bisects [OF built ran caught many, of 0 "Some 2"]
    by (simp add: stacked_query.simps eval)
qed

text \<open>
  C1 as stated fails in two ways. For the identifiers 22 and 1 and an adapter that
  rejects every query that names 22, the first half gives up on 22 and returns
  \<^verbatim>\<open>None\<close>, not a list; the second half is run in the state that the first half left
  and appends the record of 1 to the list, so what it received is the list and not what
  the first half returned. With an adapter that has nothing under 22 and raises an error
  that is not caught, the first half raises and the second half is not processed.
\<close>

theorem stacked_query_bisects_counterexample:
  "fst (stacked_query [IdStr ''22''] ''AU-ID($fill)'' '' OR '' (rejecting ''22'') False 0 (Some 2)
          \<lparr>res = [], trace = [Run ''AU-ID(22 OR 1)'' False False], world = 1\<rparr>) = Return None 0
   \<and> stacked_query [IdInt 22, IdInt 1] ''AU-ID($fill)'' '' OR '' (rejecting ''22'') False 0 (Some 2)
         st0 =
       stacked_query [IdStr ''1''] ''AU-ID($fill)'' '' OR '' (rejecting ''22'') False 0 (Some 2)
         (snd (stacked_query [IdStr ''22''] ''AU-ID($fill)'' '' OR '' (rejecting ''22'') False 0
            (Some 2) \<lparr>res = [], trace = [Run ''AU-ID(22 OR 1)'' False False], world = 1\<rparr>))
   \<and> fst (stacked_query [IdInt 22, IdInt 1] ''AU-ID($fill)'' '' OR '' (rejecting ''22'') False 0
          (Some 2) st0) = Return (Some [''AU-ID(1)'']) 1
   \<and> stacked_query [IdInt 22, IdInt 1] ''AU-ID($fill)'' '' OR '' (missing ''22'') False 0 (Some 2)
         st0 =
       (Raise Scopus404Error,
        \<lparr>res = [],
         trace = [Run ''AU-ID(22 OR 1)'' False False, Run ''AU-ID(22)'' False False],
         world = 2\<rparr>)"
  by (simp add: stacked_query.simps eval)

text \<open>
  C2, as amended: when the adapter call fails with an error of the \<^verbatim>\<open>except\<close>
  clause, the group has exactly one identifier and the query string built holds neither
  the marker nor a dollar sign, the scoping clause is appended to the query string and
  the result is the new template. The tokens \<open>*0\<close> to \<open>*4\<close> are processed and, unless
  that ends with an exception, then \<open>*5\<close> to \<open>*9\<close>, both with the joiner \<open>OR\<close> and
  without a total; each of the two calls starts by sending the query string with its five
  tokens in the scoping clause. Under the new template the fallback is not entered
  again: a failing call on at most one token ends at once.
\<close>

theorem stacked_query_fallback:
  assumes "substitute template (join joiner (map str grp)) = Inr q"
    and "run func q refresh st = (Inl e, st1)"
    and "absorbed e"
    and "length grp = 1"
    and "\<not> contains ''AND EID('' q"
    and "CHR ''$'' \<notin> set q"
  shows "stacked_query grp template joiner func refresh i tot st =
      (case stacked_query [IdStr ''*0'', IdStr ''*1'', IdStr ''*2'', IdStr ''*3'', IdStr ''*4'']
              (q @ '' AND EID($fill)'') '' OR '' func refresh i None st1 of
         (Raise e1, st2) \<Rightarrow> (Raise e1, st2)
       | (Return res1 i1, st2) \<Rightarrow>
           stacked_query [IdStr ''*5'', IdStr ''*6'', IdStr ''*7'', IdStr ''*8'', IdStr ''*9'']
             (q @ '' AND EID($fill)'') '' OR '' func refresh i1 None st2)
    \<and> (\<exists>b more.
          trace (snd (stacked_query
            [IdStr ''*0'', IdStr ''*1'', IdStr ''*2'', IdStr ''*3'', IdStr ''*4'']
            (q @ '' AND EID($fill)'') '' OR '' func refresh i None st1)) =
          trace st1 @ Run (q @ '' AND EID(*0 OR *1 OR *2 OR *3 OR *4)'') refresh b # more)
    \<and> (\<forall>i1 st2. \<exists>b more.
          trace (snd (stacked_query
            [IdStr ''*5'', IdStr ''*6'', IdStr ''*7'', IdStr ''*8'', IdStr ''*9'']
            (q @ '' AND EID($fill)'') '' OR '' func refresh i1 None st2)) =
          trace st2 @ Run (q @ '' AND EID(*5 OR *6 OR *7 OR *8 OR *9)'') refresh b # more)
    \<and> (\<forall>grp' joiner' i' tot' st' q' e' st1'.
          substitute (q @ '' AND EID($fill)'') (join joiner' (map str grp')) = Inr q' \<and>
          run func q' refresh st' = (Inl e', st1') \<and> absorbed e' \<and> length grp' \<le> 1
          \<longrightarrow> stacked_query grp' (q @ '' AND EID($fill)'') joiner' func refresh i' tot' st' =
                (Return None i', st1'))"
proof (intro conjI)
  show "stacked_query grp template joiner func refresh i tot st =
      (case stacked_query [IdStr ''*0'', IdStr ''*1'', IdStr ''*2'', IdStr ''*3'', IdStr ''*4'']
              (q @ '' AND EID($fill)'') '' OR '' func refresh i None st1 of
         (Raise e1, st2) \<Rightarrow> (Raise e1, st2)
       | (Return res1 i1, st2) \<Rightarrow>
           stacked_query [IdStr ''*5'', IdStr ''*6'', IdStr ''*7'', IdStr ''*8'', IdStr ''*9'']
             (q @ '' AND EID($fill)'') '' OR '' func refresh i1 None st2)"
    using assms(1-5)
    by (simp add: stacked_query.simps [of grp] Let_def groupeids_eq split: prod.splits ret.splits)
next
  have "substitute (q @ '' AND EID($fill)'')
      (join '' OR '' (map str [IdStr ''*0'', IdStr ''*1'', IdStr ''*2'', IdStr ''*3'', IdStr ''*4''])) =
      Inr (q @ '' AND EID(*0 OR *1 OR *2 OR *3 OR *4)'')"
    by (simp add: substitute_scoped [OF assms(6)])
  with first_query [of refresh "[IdStr ''*0'', IdStr ''*1'', IdStr ''*2'', IdStr ''*3'', IdStr ''*4'']"
      "q @ '' AND EID($fill)''" "'' OR ''" st1 func i None]
  show "\<exists>b more.
          trace (snd (stacked_query
            [IdStr ''*0'', IdStr ''*1'', IdStr ''*2'', IdStr ''*3'', IdStr ''*4'']
            (q @ '' AND EID($fill)'') '' OR '' func refresh i None st1)) =
          trace st1 @ Run (q @ '' AND EID(*0 OR *1 OR *2 OR *3 OR *4)'') refresh b # more"
    unfolding queries_first_def by blast
next
  have "substitute (q @ '' AND EID($fill)'')
      (join '' OR '' (map str [IdStr ''*5'', IdStr ''*6'', IdStr ''*7'', IdStr ''*8'', IdStr ''*9''])) =
      Inr (q @ '' AND EID(*5 OR *6 OR *7 OR *8 OR *9)'')"
    by (simp add: substitute_scoped [OF assms(6)])
  then show "\<forall>i1 st2. \<exists>b more.
          trace (snd (stacked_query
            [IdStr ''*5'', IdStr ''*6'', IdStr ''*7'', IdStr ''*8'', IdStr ''*9'']
            (q @ '' AND EID($fill)'') '' OR '' func refresh i1 None st2)) =
          trace st2 @ Run (q @ '' AND EID(*5 OR *6 OR *7 OR *8 OR *9)'') refresh b # more"
    using first_query [of refresh "[IdStr ''*5'', IdStr ''*6'', IdStr ''*7'', IdStr ''*8'', IdStr ''*9'']"
      "q @ '' AND EID($fill)''" "'' OR ''" _ func _ None]
    unfolding queries_first_def by blast
next
  show "\<forall>grp' joiner' i' tot' st' q' e' st1'.
          substitute (q @ '' AND EID($fill)'') (join joiner' (map str grp')) = Inr q' \<and>
          run func q' refresh st' = (Inl e', st1') \<and> absorbed e' \<and> length grp' \<le> 1
          \<longrightarrow> stacked_query grp' (q @ '' AND EID($fill)'') joiner' func refresh i' tot' st' =
                (Return None i', st1')"
    using give_up_returns_None substitute_scoped_contains by blast
qed

theorem stacked_query_fallback_witness:
  "stacked_query [IdInt 1] ''AU-ID($fill)'' '' OR '' needs_scope False 0 (Some 1) st0 =
     (Return (Some [''AU-ID(1) AND EID(*0 OR *1 OR *2 OR *3 OR *4)'',
                    ''AU-ID(1) AND EID(*5 OR *6 OR *7 OR *8 OR *9)'']) 0,
      \<lparr>res = [''AU-ID(1) AND EID(*0 OR *1 OR *2 OR *3 OR *4)'',
              ''AU-ID(1) AND EID(*5 OR *6 OR *7 OR *8 OR *9)''],
       trace = [Run ''AU-ID(1)'' False False,
                Run ''AU-ID(1) AND EID(*0 OR *1 OR *2 OR *3 OR *4)'' False True,
                Run ''AU-ID(1) AND EID(*5 OR *6 OR *7 OR *8 OR *9)'' False True],
       world = 3\<rparr>)"
proof -
  have built: "substitute ''AU-ID($fill)'' (join '' OR '' (map str [IdInt 1])) = Inr ''AU-ID(1)''"
    by (simp add: eval)
  have ran: "run needs_scope ''AU-ID(1)'' False st0 =
      (Inl ScopusQueryError, \<lparr>res = [], trace = [Run ''AU-ID(1)'' False False], world = 1\<rparr>)"
    by (simp add: eval)
  have caught: "absorbed ScopusQueryError"
    by (simp add: absorbed_def)
  have one: "length [IdInt 1] = 1"
    by simp
  have unmarked: "\<not> contains ''AND EID('' ''AU-ID(1)''"
    by simp
  have plain: "CHR ''$'' \<notin> set ''AU-ID(1)''"
    by simp
  from stacked_query_fallback [OF built ran caught one unmarked plain, of 0 "Some 1"]
  have "stacked_query [IdInt 1] ''AU-ID($fill)'' '' OR '' needs_scope False 0 (Some 1) st0 =
      (case stacked_query [IdStr ''*0'', IdStr ''*1'', IdStr ''*2'', IdStr ''*3'', IdStr ''*4'']
              (''AU-ID(1)'' @ '' AND EID($fill)'') '' OR '' needs_scope False 0 None
              \<lparr>res = [], trace = [Run ''AU-ID(1)'' False False], world = 1\<rparr> of
         (Raise e1, st2) \<Rightarrow> (Raise e1, st2)
       | (Return res1 i1, st2) \<Rightarrow>
           stacked_query [IdStr ''*5'', IdStr ''*6'', IdStr ''*7'', IdStr ''*8'', IdStr ''*9'']
             (''AU-ID(1)'' @ '' AND EID($fill)'') '' OR '' needs_scope False i1 None st2)"
    by (rule conjunct1)
  then show ?thesis
    by (simp add: stacked_query.simps eval)
qed

text \<open>
  C2 as stated fails in two ways. The new template is made from the query string that
  was built, so a dollar sign that the first substitution wrote is read again: with a
  template that holds \<^verbatim>\<open>$$5\<close> the call raises ValueError after the one adapter call,
  and no token is queried. With an adapter that raises an error that is not caught for
  the query of the first five tokens, the call raises and the last five tokens are not
  queried.
\<close>

theorem stacked_query_fallback_counterexample:
  "stacked_query [IdInt 1] ''AU-ID($fill) AND COST $$5'' '' OR '' (too_long 0) False 0 None st0 =
     (Raise ValueError,
      \<lparr>res = [], trace = [Run ''AU-ID(1) AND COST $5'' False False], world = 1\<rparr>)
   \<and> stacked_query [IdInt 1] ''AU-ID($fill)'' '' OR '' lost_when_scoped False 0 None st0 =
     (Raise Scopus404Error,
      \<lparr>res = [],
       trace = [Run ''AU-ID(1)'' False False,
                Run ''AU-ID(1) AND EID(*0 OR *1 OR *2 OR *3 OR *4)'' False False],
       world = 2\<rparr>)"
  by (simp add: stacked_query.simps eval)

text \<open>
  C3: giving up on a leaf. For the identifiers 1 and 22 and an adapter that rejects every
  query that names 22, the record of 1 is found and appended; the query for 22 fails,
  and so does each of its scoped queries. The last leaf gives up, and the call returns
  \<^verbatim>\<open>None\<close> with the counter 1, while the list holds the record of 1: what is
  returned is not the accumulated list.
\<close>

theorem stacked_query_gives_up_None:
  "fst (stacked_query [IdInt 1, IdInt 22] ''AU-ID($fill)'' '' OR '' (rejecting ''22'') False 0
          (Some 2) st0) = Return None 1
   \<and> res (snd (stacked_query [IdInt 1, IdInt 22] ''AU-ID($fill)'' '' OR '' (rejecting ''22'') False 0
          (Some 2) st0)) = [''AU-ID(1)'']"
  by (simp add: stacked_query.simps eval)


text \<open>
  C9, as amended: the query string is built from the identifiers in their string form.
  When the adapter returns records, they are appended to the list. If the total is an
  integer other than zero, the counter is advanced by the size of the group and progress
  is reported with the new counter and the total; if the total is \<^verbatim>\<open>None\<close> or
  zero, the counter is unchanged and nothing is reported.
\<close>

theorem stacked_query_success:
  assumes "substitute template (join joiner (map str grp)) = Inr q"
    and "run func q refresh st = (Inr (Some found), st1)"
  shows "stacked_query grp template joiner func refresh i tot st =
      (if truthy tot then
         (Return (Some (res st @ found)) (i + int (length grp)),
          st1\<lparr>res := res st @ found,
               trace := trace st @ [Run q refresh True,
                                    Print_progress (i + int (length grp)) (the tot)]\<rparr>)
       else
         (Return (Some (res st @ found)) i,
          st1\<lparr>res := res st @ found, trace := trace st @ [Run q refresh True]\<rparr>))"
  using assms run_state [OF assms(2)]
  by (simp add: stacked_query.simps [of grp] Let_def print_progress_def)

theorem stacked_query_success_witness:
  "stacked_query [IdInt 53164702100, IdStr ''57197093438''] ''AU-ID($fill)'' '') OR AU-ID(''
     (too_long 100) False 0 (Some 2) st0 =
     (Return (Some [''AU-ID(53164702100) OR AU-ID(57197093438)'']) 2,
      \<lparr>res = [''AU-ID(53164702100) OR AU-ID(57197093438)''],
       trace = [Run ''AU-ID(53164702100) OR AU-ID(57197093438)'' False True, Print_progress 2 2],
       world = 1\<rparr>)"
proof -
  have built: "substitute ''AU-ID($fill)''
      (join '') OR AU-ID('' (map str [IdInt 53164702100, IdStr ''57197093438''])) =
      Inr ''AU-ID(53164702100) OR AU-ID(57197093438)''"
    by (simp add: eval)
  have ran: "run (too_long 100) ''AU-ID(53164702100) OR AU-ID(57197093438)'' False st0 =
      (Inr (Some [''AU-ID(53164702100) OR AU-ID(57197093438)'']),
       \<lparr>res = [], trace = [Run ''AU-ID(53164702100) OR AU-ID(57197093438)'' False True],
        world = 1\<rparr>)"
    by (simp add: eval)
  show ?thesis
    using stacked_query_success [OF built ran, of 0 "Some 2"]
    by (simp add: truthy_def st0_def)
qed

text \<open>
  C9 as stated fails for a total that is supplied and is zero. For one identifier, the
  counter 0 and the total 0 the adapter call succeeds, the counter returned is 0 and
  not 1, and the trace holds no progress report. For the empty group, whose size the
  total 0 is, the adapter call succeeds and no progress is reported either.
\<close>

theorem stacked_query_zero_total_counterexample:
  "stacked_query [IdInt 7] ''AU-ID($fill)'' '' OR '' (too_long 100) False 0 (Some 0) st0 =
     (Return (Some [''AU-ID(7)'']) 0,
      \<lparr>res = [''AU-ID(7)''], trace = [Run ''AU-ID(7)'' False True], world = 1\<rparr>)
   \<and> stacked_query [] ''AU-ID($fill)'' '' OR '' (too_long 100) False 0 (Some 0) st0 =
     (Return (Some [''AU-ID()'']) 0,
      \<lparr>res = [''AU-ID()''], trace = [Run ''AU-ID()'' False True], world = 1\<rparr>)"
  by (simp add: stacked_query.simps eval)

text \<open>
  C10: a call that returns has a counter that is not below the one passed in. The
  counter is above it only if the total is truthy and the call made an adapter call that
  returned records.
\<close>

theorem stacked_query_counter_monotone:
  assumes "stacked_query grp template joiner func refresh i tot st = (Return r i', st')"
  shows "i \<le> i' \<and>
     (\<exists>new. trace st' = trace st @ new \<and>
        (i < i' \<longrightarrow> truthy tot \<and> (\<exists>q rf. Run q rf True \<in> set new)))"
  using counter_invariant [of i tot st grp template joiner func refresh] assms
  unfolding counter_inv_def by auto

theorem stacked_query_counter_monotone_witness:
  "(0::int) \<le> 2 \<and>
   (\<exists>new. [Run ''AU-ID(1 OR 2)'' False False,
            Run ''AU-ID(1)'' False True, Print_progress 1 2,
            Run ''AU-ID(2)'' False True, Print_progress 2 2] = trace st0 @ new \<and>
      truthy (Some 2) \<and> (\<exists>q rf. Run q rf True \<in> set new))"
proof -
  have ran: "stacked_query [IdInt 1, IdInt 2] ''AU-ID($fill)'' '' OR '' (too_long 8) False 0 (Some 2)
      st0 =
     (Return (Some [''AU-ID(1)'', ''AU-ID(2)'']) 2,
      \<lparr>res = [''AU-ID(1)'', ''AU-ID(2)''],
       trace = [Run ''AU-ID(1 OR 2)'' False False,
                Run ''AU-ID(1)'' False True, Print_progress 1 2,
                Run ''AU-ID(2)'' False True, Print_progress 2 2],
       world = 3\<rparr>)"
    by (simp add: stacked_query.simps eval)
  from stacked_query_counter_monotone [OF ran] show ?thesis
    by simp
qed

section \<open>The claims about query\<close>

text \<open>
  A service for concrete runs. A record is its cover date; the state of the service
  is the list of the calls made so far. The document search always finds one document
  whose cover date does not start with a year; the author search always fails to decode.
\<close>

definition bad_year_service :: "(string, (string \<times> bool) list) scopus" where
  "bad_year_service =
     \<lparr>AuthorSearch = (\<lambda>q refresh w. (Inl KeyError, w @ [(q, refresh)])),
      ScopusSearch = (\<lambda>q refresh w. (Inr [''20a6-01-01''], w @ [(q, refresh)])),
      coverDate = Some\<rparr>"

text \<open>
  A first try makes at most two attempts: the second one, with the refresh flag set,
  only after a decode-class failure of the first.
\<close>

lemma query_first_try:
  "query sc q_type q refresh True w =
     (case query_try sc q_type q refresh w of
        (Inr found, w1) \<Rightarrow> (Inr (Some found), w1)
      | (Inl e, w1) \<Rightarrow>
          if decode_class e then
            (case query_try sc q_type q True w1 of
               (Inr found, w2) \<Rightarrow> (Inr (Some found), w2)
             | (Inl e', w2) \<Rightarrow> if decode_class e' then (Inr None, w2) else (Inl e', w2))
          else (Inl e, w1))"
  by (simp add: query.simps [of sc q_type q _ _ _] split: prod.splits sum.splits)

text \<open>
  C5: a decode-class failure of the first attempt is followed by one more attempt. When
  that one fails with a decode-class error too, \<open>query\<close> raises nothing: it returns
  \<^verbatim>\<open>None\<close>.
\<close>

theorem query_second_failure_returns_None:
  assumes "query_try sc q_type q refresh w = (Inl e, w1)"
    and "decode_class e"
    and "query_try sc q_type q True w1 = (Inl e', w2)"
    and "decode_class e'"
  shows "query sc q_type q refresh True w = (Inr None, w2)"
  using assms by (simp add: query_first_try)

theorem query_second_failure_returns_None_witness:
  "query bad_year_service ''docs'' ''SOURCE-ID(22900)'' False True [] =
     (Inr None, [(''SOURCE-ID(22900)'', False), (''SOURCE-ID(22900)'', True)])"
proof -
  have first: "query_try bad_year_service ''docs'' ''SOURCE-ID(22900)'' False [] =
      (Inl ValueError, [(''SOURCE-ID(22900)'', False)])"
    by (simp add: query_try_def bad_year_service_def int_parses_def strip_def isspace_def
        isdigit_def)
  have second: "query_try bad_year_service ''docs'' ''SOURCE-ID(22900)'' True
      [(''SOURCE-ID(22900)'', False)] =
      (Inl ValueError, [(''SOURCE-ID(22900)'', False), (''SOURCE-ID(22900)'', True)])"
    by (simp add: query_try_def bad_year_service_def int_parses_def strip_def isspace_def
        isdigit_def)
  have decode: "decode_class ValueError"
    by (simp add: decode_class_def)
  show ?thesis
    using query_second_failure_returns_None [OF first decode second decode] .
qed

text \<open>
  \<^verbatim>\<open>partial(query, q_type)\<close>, the adapter that \<^verbatim>\<open>query_journal\<close> hands to
  \<open>stacked_query\<close>. With it the \<^verbatim>\<open>None\<close> of a second decode-class failure
  reaches \<^verbatim>\<open>res.extend\<close>, and the caller sees a TypeError.
\<close>

definition partial_query :: "('r, 'w) scopus \<Rightarrow> string \<Rightarrow> ('r, 'w) func" where
  "partial_query sc q_type q refresh w = query sc q_type q refresh True w"

lemma stacked_query_on_None:
  "fst (stacked_query [IdInt 22900] ''SOURCE-ID($fill)'' '''' (partial_query bad_year_service ''docs'')
          False 0 None \<lparr>res = [], trace = [], world = []\<rparr>) = Raise TypeError"
  by (simp add: stacked_query.simps eval partial_query_def query.simps query_try_def
      bad_year_service_def decode_class_def int_parses_def strip_def isspace_def)

text \<open>
  C7: for a \<open>q_type\<close> other than \<open>author\<close> and \<open>docs\<close> an exception leaves
  \<open>query\<close>, whatever \<open>first_try\<close> is; no search is called (the state of the service
  is unchanged) and nothing is tried again.
\<close>

theorem query_unknown_type:
  assumes "q_type \<noteq> ''author''" and "q_type \<noteq> ''docs''"
  shows "query sc q_type q refresh first_try w = (Inl (Exception ''Unknown value provided.''), w)"
  using assms by (simp add: query.simps [of sc q_type] query_try_def decode_class_def)

theorem query_unknown_type_witness:
  "query bad_year_service ''journal'' ''SOURCE-ID(22900)'' False True [] =
     (Inl (Exception ''Unknown value provided.''), [])
   \<and> query bad_year_service ''journal'' ''SOURCE-ID(22900)'' False False [] =
     (Inl (Exception ''Unknown value provided.''), [])"
proof -
  have other: "''journal'' \<noteq> ''author''" "''journal'' \<noteq> ''docs''"
    by simp_all
  show ?thesis
    using query_unknown_type [OF other, of bad_year_service "''SOURCE-ID(22900)''" False True "[]"]
      query_unknown_type [OF other, of bad_year_service "''SOURCE-ID(22900)''" False False "[]"]
    by simp
qed

section \<open>The cache file: create\_cache\<close>

text \<open>
  One entry of \<^verbatim>\<open>CACHE_TABLES\<close>: the columns, each a sequence of words (name and
  type), and the names of the primary key.
\<close>

record variables =
  columns :: "string list list"
  primary :: "string list"

text \<open>
  The two statements that \<^verbatim>\<open>create_cache\<close> formats, by table name;
  \<open>CREATE_TABLE_IF_NOT_EXISTS\<close> carries the text between the outer parentheses.
\<close>

datatype statement =
    DROP_TABLE_IF_EXISTS string
  | CREATE_TABLE_IF_NOT_EXISTS string string

text \<open>
  SQLite's judgement of a statement, a parameter of the model: \<open>parses\<close> tells
  whether the text of the statement is accepted by the parser, whatever the database
  holds; \<open>definable\<close> tells whether the table that a creating statement defines is
  well formed (its column names differ, its key names columns), which SQLite checks only
  when it creates the table.
\<close>

record sqlite =
  parses :: "statement \<Rightarrow> bool"
  definable :: "statement \<Rightarrow> bool"

text \<open>SQLite compares table names without regard to ASCII case.\<close>

definition lower_char :: "char \<Rightarrow> char" where
  "lower_char c =
     (case map_of (zip ''ABCDEFGHIJKLMNOPQRSTUVWXYZ'' ''abcdefghijklmnopqrstuvwxyz'') c of
        None \<Rightarrow> c
      | Some l \<Rightarrow> l)"

definition lower :: "string \<Rightarrow> string" where
  "lower s = map lower_char s"

text \<open>
  A table of the database: the definition it was created with, and its rows. A database
  maps the names of its tables, in lower case, to them. It holds tables only: views,
  indexes and locks held by other connections are outside the model.
\<close>

record 'row table =
  definition_text :: string
  rows :: "'row list"

type_synonym 'row database = "string \<rightharpoonup> 'row table"

text \<open>
  \<^verbatim>\<open>c.execute(q)\<close> for the two statements. A statement that SQLite rejects raises
  OperationalError and changes nothing. Dropping removes the table with its rows if it
  is there; creating adds an empty table unless one of that name is there. No
  transaction is open, so what a statement did stays when a later one raises.
\<close>

fun execute :: "sqlite \<Rightarrow> statement \<Rightarrow> 'row database \<Rightarrow> exc + 'row database" where
  "execute engine (DROP_TABLE_IF_EXISTS t) db =
     (if \<not> parses engine (DROP_TABLE_IF_EXISTS t) then Inl OperationalError
      else Inr (db(lower t := None)))"
| "execute engine (CREATE_TABLE_IF_NOT_EXISTS t body) db =
     (if \<not> parses engine (CREATE_TABLE_IF_NOT_EXISTS t body) then Inl OperationalError
      else case db (lower t) of
        Some present \<Rightarrow> Inr db
      | None \<Rightarrow>
          if definable engine (CREATE_TABLE_IF_NOT_EXISTS t body)
          then Inr (db(lower t \<mapsto> \<lparr>definition_text = body, rows = []\<rparr>))
          else Inl OperationalError)"

text \<open>The text of the table definition that the loop body formats.\<close>

definition create_body :: "variables \<Rightarrow> string" where
  "create_body v =
     (let cols = join '', '' (map (join '' '') (columns v));
          prim_keys = join '', '' (primary v)
      in cols @ '', PRIMARY KEY('' @ prim_keys @ '')'')"

text \<open>
  The loop \<^verbatim>\<open>for table, variables in CACHE_TABLES.items()\<close> over the entries of
  the dictionary, in their order. It ends at the first statement that raises; the
  result is the exception, if any, and the database as the statements left it.
\<close>

fun create_tables ::
  "sqlite \<Rightarrow> bool \<Rightarrow> (string \<times> variables) list \<Rightarrow> 'row database \<Rightarrow> exc option \<times> 'row database"
  where
  "create_tables engine drop_first [] db = (None, db)"
| "create_tables engine drop_first ((t, v) # entries) db =
     (case (if drop_first then execute engine (DROP_TABLE_IF_EXISTS t) db else Inr db) of
        Inl e \<Rightarrow> (Some e, db)
      | Inr db1 \<Rightarrow>
          (case execute engine (CREATE_TABLE_IF_NOT_EXISTS t (create_body v)) db1 of
             Inl e \<Rightarrow> (Some e, db1)
           | Inr db2 \<Rightarrow> create_tables engine drop_first entries db2))"





























text \<open>
  A statement that SQLite rejects ends the call as well, and the tables created before
  it stay: here the definition of the second table has no columns.
\<close>

lemma create_cache_rejected_statement:
  "create_tables \<lparr>parses = (\<lambda>statement. statement \<noteq>
        CREATE_TABLE_IF_NOT_EXISTS ''sources'' '', PRIMARY KEY()''),
      definable = (\<lambda>statement. True)\<rparr> False
     [(''authors'', \<lparr>columns = [[''auth_id'', ''int'']], primary = [''auth_id'']\<rparr>),
      (''sources'', \<lparr>columns = [], primary = []\<rparr>)] (Map.empty :: string database) =
   (Some OperationalError,
    [''authors'' \<mapsto> \<lparr>definition_text = ''auth_id int, PRIMARY KEY(auth_id)'', rows = []\<rparr>])"
  by (simp add: create_body_def lower_def lower_char_def)

section \<open>The key partitioner\<close>

text \<open>
  Modelled from the spec: the partitioner (\<^verbatim>\<open>authors_in_cache\<close> and its siblings in
  \<^verbatim>\<open>sosia.cache\<close>) is not among the sources; only its test is. The spec gives one
  algorithm for every record kind: deduplicate the input keys while preserving first-seen
  order; call the lookup of the cache store with the full key set; \<open>incache\<close> is the
  cached records of the keys found, \<open>tosearch\<close> the ordered list of the keys not found.
  The store holds at most one record per key, so it is a map from keys to payloads; its
  lookup returns the subset of the keys that are present in storage.
\<close>

primrec dedup :: "'k list \<Rightarrow> 'k list" where
  "dedup [] = []"
| "dedup (k # ks) = k # filter (\<lambda>k'. k' \<noteq> k) (dedup ks)"

definition lookup :: "('k \<rightharpoonup> 'p) \<Rightarrow> 'k set \<Rightarrow> 'k set" where
  "lookup store keys = {k \<in> keys. store k \<noteq> None}"

definition partition_keys :: "('k \<rightharpoonup> 'p) \<Rightarrow> 'k list \<Rightarrow> ('k \<times> 'p) list \<times> 'k list" where
  "partition_keys store R =
     (let keys = dedup R;
          found = lookup store (set keys)
      in ([(k, p). k \<leftarrow> keys, k \<in> found, Some p \<leftarrow> [store k]],
          [k \<leftarrow> keys. k \<notin> found]))"

text \<open>The position of the first occurrence of a key in a list.\<close>

primrec first_index :: "'k list \<Rightarrow> 'k \<Rightarrow> nat" where
  "first_index [] k = 0"
| "first_index (k' # ks) k = (if k' = k then 0 else Suc (first_index ks k))"

lemma set_dedup: "set (dedup R) = set R"
  by (induction R) auto

lemma distinct_dedup: "distinct (dedup R)"
  by (induction R) auto

lemma dedup_first_seen_order:
  "sorted_wrt (\<lambda>a b. first_index R a < first_index R b) (dedup R)"
proof (induction R)
  case Nil
  show ?case by simp
next
  case (Cons k ks)
  have "sorted_wrt (\<lambda>a b. first_index ks a < first_index ks b) (filter (\<lambda>k'. k' \<noteq> k) (dedup ks))"
    using Cons.IH by (rule sorted_wrt_filter)
  then have "sorted_wrt (\<lambda>a b. first_index (k # ks) a < first_index (k # ks) b)
      (filter (\<lambda>k'. k' \<noteq> k) (dedup ks))"
    by (rule sorted_wrt_mono_rel [rotated]) auto
  then show ?case
    by auto
qed

lemma found_records_keys:
  "map fst [(k, p). k \<leftarrow> ks, k \<in> A, Some p \<leftarrow> [store k]] =
     filter (\<lambda>k. k \<in> A \<and> store k \<noteq> None) ks"
  by (induction ks) (auto split: option.splits)

lemma incache_keys:
  "map fst (fst (partition_keys store R)) = filter (\<lambda>k. store k \<noteq> None) (dedup R)"
proof -
  have "filter (\<lambda>k. k \<in> lookup store (set (dedup R)) \<and> store k \<noteq> None) (dedup R) =
      filter (\<lambda>k. store k \<noteq> None) (dedup R)"
    by (rule filter_cong) (auto simp: lookup_def)
  then show ?thesis
    by (simp add: partition_keys_def Let_def found_records_keys)
qed

lemma tosearch_keys:
  "snd (partition_keys store R) = filter (\<lambda>k. store k = None) (dedup R)"
proof -
  have "filter (\<lambda>k. k \<notin> lookup store (set (dedup R))) (dedup R) =
      filter (\<lambda>k. store k = None) (dedup R)"
    by (rule filter_cong) (auto simp: lookup_def)
  then show ?thesis
    by (simp add: partition_keys_def Let_def)
qed

lemma incache_records:
  "(k, p) \<in> set (fst (partition_keys store R)) \<Longrightarrow> store k = Some p"
  by (auto simp: partition_keys_def Let_def split: option.splits if_splits)

text \<open>
  C6: partition completeness. For every requested list of keys \<open>R\<close>, the keys of
  \<open>incache\<close> and of \<open>tosearch\<close> together are the keys of \<open>dedup R\<close>, which are the
  keys of \<open>R\<close>; no key is in both; no key occurs twice in either; and \<open>tosearch\<close> lists
  its keys in the order of their first occurrence in \<open>R\<close>.
\<close>

theorem partition_complete:
  "set (map fst (fst (partition_keys store R))) \<union> set (snd (partition_keys store R)) = set (dedup R)
   \<and> set (dedup R) = set R
   \<and> set (map fst (fst (partition_keys store R))) \<inter> set (snd (partition_keys store R)) = {}
   \<and> distinct (map fst (fst (partition_keys store R)))
   \<and> distinct (snd (partition_keys store R))
   \<and> sorted_wrt (\<lambda>a b. first_index R a < first_index R b) (snd (partition_keys store R))"
proof (intro conjI)
  show "set (map fst (fst (partition_keys store R))) \<union> set (snd (partition_keys store R)) =
      set (dedup R)"
    unfolding incache_keys tosearch_keys by auto
  show "set (dedup R) = set R"
    by (rule set_dedup)
  show "set (map fst (fst (partition_keys store R))) \<inter> set (snd (partition_keys store R)) = {}"
    unfolding incache_keys tosearch_keys by auto
  show "distinct (map fst (fst (partition_keys store R)))"
    unfolding incache_keys by (simp add: distinct_dedup)
  show "distinct (snd (partition_keys store R))"
    unfolding tosearch_keys by (simp add: distinct_dedup)
  show "sorted_wrt (\<lambda>a b. first_index R a < first_index R b) (snd (partition_keys store R))"
    unfolding tosearch_keys by (rule sorted_wrt_filter) (rule dedup_first_seen_order)
qed

text \<open>
  The scenario of the test of the partitioner: with the records of two authors stored,
  asking for them (one of them twice) and for a third author gives the two records and
  leaves the third to search.
\<close>

lemma partition_scenario:
  "partition_keys [53164702100 \<mapsto> ''Lastname A'', 57197093438 \<mapsto> ''Lastname B'']
     [53164702100, 57197093438, 53164702100, 55317901900 :: int] =
   ([(53164702100, ''Lastname A''), (57197093438, ''Lastname B'')], [55317901900])"
  by (simp add: partition_keys_def lookup_def Let_def)

end
